theory Spec2Isabelle
  imports Main "HOL-Library.Word"
begin

section \<open>Strings of the host language\<close>

text \<open>
  A JavaScript string is a sequence of 16-bit code units; \<open>split('')\<close> cuts a string
  into its code units, so a code unit is what the display treats as one character.
\<close>

type_synonym jschar = "16 word"
type_synonym jsstring = "jschar list"

text \<open>An ASCII literal of the source, as code units.\<close>

definition js :: "string \<Rightarrow> jsstring" where
  "js lit = map of_char lit"

text \<open>
  The code units that \<open>String.prototype.trim\<close> strips: ECMAScript's WhiteSpace (TAB,
  VT, FF, ZWNBSP and the Unicode space separators) and LineTerminator (LF, CR, LS, PS).
\<close>

definition isWhiteSpace :: "jschar \<Rightarrow> bool" where
  "isWhiteSpace c =
     (c = 0x0009 \<or> c = 0x000A \<or> c = 0x000B \<or> c = 0x000C \<or> c = 0x000D \<or> c = 0x0020 \<or>
      c = 0x00A0 \<or> c = 0x1680 \<or> (0x2000 \<le> c \<and> c \<le> 0x200A) \<or> c = 0x2028 \<or>
      c = 0x2029 \<or> c = 0x202F \<or> c = 0x205F \<or> c = 0x3000 \<or> c = 0xFEFF)"

definition trim :: "jsstring \<Rightarrow> jsstring" where
  "trim str = rev (dropWhile isWhiteSpace (rev (dropWhile isWhiteSpace str)))"

section \<open>The display and its parts\<close>

text \<open>
  One \<open>span class="char"\<close> child of the text box: its text content, the classes
  \<open>visible\<close>, \<open>ellipsis-before\<close> and \<open>ellipsis-after\<close> of its class list, and its
  \<open>hidden\<close> property.
\<close>

record span =
  textContent :: jsstring
  visible :: bool
  ellipsis_before :: bool
  ellipsis_after :: bool
  hidden :: bool

text \<open>The variables that one call of \<open>showLetters\<close> closes over for its interval callback.\<close>

record closure =
  index :: nat
  lookForWhitespaceChar :: bool

text \<open>
  The element's state. \<open>letters\<close> is the generator: it walks an array holding exactly
  the current children of the text box (both are assigned together, in
  \<open>attributeChangedCallback\<close>, and nowhere else), so it is the position of the next
  child to yield; \<open>None\<close> is the property before its first assignment. \<open>intervals\<close>
  are the intervals set by \<open>showLetters\<close> and not yet cleared, by interval ID, each with
  its closure; \<open>next_interval\<close> is the ID \<open>window.setInterval\<close> returns next.
\<close>

record display =
  continueButton_textContent :: jsstring
  continueButton_hidden :: bool
  textBox_hidden :: bool
  data_complete :: bool
  textBox_children :: "span list"
  accessibleTextBox_textContent :: jsstring
  letters :: "nat option"
  intervals :: "(nat \<times> closure) list"
  next_interval :: nat

text \<open>
  Reading a property of \<open>undefined\<close> or \<open>null\<close> throws a TypeError; the three places
  where the interval callback can do so are kept apart.
\<close>

datatype error =
  TypeError_letters_undefined
  | TypeError_no_previousElementSibling
  | TypeError_no_nextElementSibling

text \<open>
  What a callback leaves behind: the display after a normal return, or the error thrown
  together with the display as it was when the error was thrown (the writes made before
  the throw stay).
\<close>

datatype outcome = Returned display | Thrown error display

fun after :: "outcome \<Rightarrow> display" where
  "after (Returned s) = s"
| "after (Thrown e s) = s"

fun thrown :: "outcome \<Rightarrow> error option" where
  "thrown (Returned s) = None"
| "thrown (Thrown e s) = Some e"

text \<open>The labels of the continue button.\<close>

definition label_continue :: jsstring where
  "label_continue = js ''Continue'' @ [0x2026]"

definition label_done :: jsstring where
  "label_done = js ''Done''"

text \<open>The constructor: the shadow tree as its markup gives it.\<close>

definition constructor :: display where
  "constructor =
     \<lparr>continueButton_textContent = label_continue,
      continueButton_hidden = True,
      textBox_hidden = True,
      data_complete = False,
      textBox_children = [],
      accessibleTextBox_textContent = [],
      letters = None,
      intervals = [],
      next_interval = 0\<rparr>"

section \<open>Segmentation\<close>

text \<open>
  Lines 192 to 196 write every code unit of the trimmed text between the tags of a span
  of class \<open>char\<close> and assign the markup to \<open>innerHTML\<close>, so the text of a span is what
  the parser of the markup reads there: it ignores U+0000 in body text, so that span is
  empty; it reads U+000D as U+000A; it keeps every other code unit (a lone \<open><\<close> or
  \<open>&\<close> before the end tag is text).
\<close>

definition innerHTML_text :: "jschar \<Rightarrow> jsstring" where
  "innerHTML_text c = (if c = 0x0000 then [] else if c = 0x000D then [0x000A] else [c])"

definition char_span :: "jschar \<Rightarrow> span" where
  "char_span c =
     \<lparr>textContent = innerHTML_text c, visible = False, ellipsis_before = False,
      ellipsis_after = False, hidden = False\<rparr>"

definition segment :: "jsstring \<Rightarrow> span list" where
  "segment newValue = map char_span (trim newValue)"

section \<open>The reveal timer\<close>

definition clearInterval :: "nat \<Rightarrow> display \<Rightarrow> display" where
  "clearInterval intervalID s =
     s\<lparr>intervals := filter (\<lambda>(i, cl). i \<noteq> intervalID) (intervals s)\<rparr>"

definition store_closure :: "nat \<Rightarrow> closure \<Rightarrow> display \<Rightarrow> display" where
  "store_closure intervalID cl s =
     s\<lparr>intervals := map (\<lambda>(i, old). if i = intervalID then (i, cl) else (i, old)) (intervals s)\<rparr>"

text \<open>\<open>showLetters\<close>: a new interval whose closure starts at index 1, not looking.\<close>

definition showLetters :: "display \<Rightarrow> display" where
  "showLetters s =
     s\<lparr>intervals := intervals s @ [(next_interval s, \<lparr>index = 1, lookForWhitespaceChar = False\<rparr>)],
       next_interval := Suc (next_interval s)\<rparr>"

text \<open>\<open>!letter.value.textContent.trim()\<close>: the empty string is the only falsy string.\<close>

definition whitespace_only :: "span \<Rightarrow> bool" where
  "whitespace_only u = (trim (textContent u) = [])"

definition add_visible :: "nat \<Rightarrow> display \<Rightarrow> display" where
  "add_visible pos s =
     s\<lparr>textBox_children := (textBox_children s)[pos := (textBox_children s ! pos)\<lparr>visible := True\<rparr>]\<rparr>"

definition add_ellipsis_after :: "nat \<Rightarrow> display \<Rightarrow> display" where
  "add_ellipsis_after pos s =
     s\<lparr>textBox_children := (textBox_children s)[pos := (textBox_children s ! pos)\<lparr>ellipsis_after := True\<rparr>]\<rparr>"

definition add_ellipsis_before :: "nat \<Rightarrow> display \<Rightarrow> display" where
  "add_ellipsis_before pos s =
     s\<lparr>textBox_children := (textBox_children s)[pos := (textBox_children s ! pos)\<lparr>ellipsis_before := True\<rparr>]\<rparr>"

text \<open>The value of \<open>lookForWhitespaceChar\<close> after lines 165 and 166.\<close>

definition armed :: "closure \<Rightarrow> bool" where
  "armed cl = (lookForWhitespaceChar cl \<or> index cl mod 100 = 0)"

text \<open>
  One run of the interval callback of lines 157 to 176, for the interval \<open>intervalID\<close>.
  A cleared interval does not fire. The child at \<open>pos\<close> has a previous element sibling
  when \<open>0 < pos\<close> and a next one when \<open>Suc pos\<close> is below the number of children.
\<close>

definition callback :: "nat \<Rightarrow> display \<Rightarrow> outcome" where
  "callback intervalID s =
     (case map_of (intervals s) intervalID of
        None \<Rightarrow> Returned s
      | Some cl \<Rightarrow>
          (case letters s of
             None \<Rightarrow> Thrown TypeError_letters_undefined s
           | Some pos \<Rightarrow>
               if length (textBox_children s) \<le> pos then
                 Returned (clearInterval intervalID
                   (s\<lparr>continueButton_textContent := label_done,
                      continueButton_hidden := False,
                      data_complete := True\<rparr>))
               else
                 let look = armed cl;
                     s1 = add_visible pos (s\<lparr>letters := Some (Suc pos)\<rparr>)
                 in
                   if look \<and> whitespace_only (textBox_children s ! pos) then
                     let s2 = clearInterval intervalID s1 in
                       if pos = 0 then Thrown TypeError_no_previousElementSibling s2
                       else
                         let s3 = add_ellipsis_after (pos - 1) s2 in
                           if length (textBox_children s) \<le> Suc pos
                           then Thrown TypeError_no_nextElementSibling s3
                           else Returned
                             ((add_ellipsis_before (Suc pos) s3)\<lparr>continueButton_hidden := False\<rparr>)
                   else
                     Returned (store_closure intervalID
                       \<lparr>index = Suc (index cl), lookForWhitespaceChar = look\<rparr> s1)))"

text \<open>\<open>n\<close> consecutive runs of one interval's callback.\<close>

fun fires :: "nat \<Rightarrow> nat \<Rightarrow> display \<Rightarrow> display" where
  "fires 0 intervalID s = s"
| "fires (Suc n) intervalID s = fires n intervalID (after (callback intervalID s))"

section \<open>Text assignment and the continue button\<close>

text \<open>
  \<open>attributeChangedCallback\<close> for the one observed attribute; \<open>newValue\<close> is \<open>None\<close>
  for \<open>null\<close> (the attribute was removed). \<open>null\<close> and the empty string are falsy.
\<close>

definition attributeChangedCallback :: "jsstring option \<Rightarrow> display \<Rightarrow> display" where
  "attributeChangedCallback newValue s =
     (case newValue of
        None \<Rightarrow> s
      | Some v \<Rightarrow>
          if v = [] then s
          else showLetters
            (s\<lparr>accessibleTextBox_textContent := v,
               continueButton_textContent := label_continue,
               textBox_hidden := False,
               textBox_children := segment v,
               letters := Some 0\<rparr>))"

text \<open>The \<open>pointerup\<close> listener of the continue button (lines 113 to 124).\<close>

definition pointerup :: "display \<Rightarrow> display" where
  "pointerup s =
     (if data_complete s then
        s\<lparr>continueButton_hidden := True, textBox_hidden := True, data_complete := False\<rparr>
      else
        showLetters
          (s\<lparr>textBox_children :=
               map (\<lambda>item. if visible item then item\<lparr>hidden := True\<rparr> else item) (textBox_children s),
             continueButton_hidden := True\<rparr>))"

section \<open>Events and reachable displays\<close>

text \<open>
  What can happen to the element: the \<open>text\<close> attribute changes, an interval fires, or
  the continue button receives \<open>pointerup\<close>. An error thrown by an interval callback
  ends that callback only; the display stays as the callback left it.
\<close>

datatype event = Attribute "jsstring option" | Interval nat | Pointerup

fun dispatch :: "event \<Rightarrow> display \<Rightarrow> display" where
  "dispatch (Attribute newValue) s = attributeChangedCallback newValue s"
| "dispatch (Interval intervalID) s = after (callback intervalID s)"
| "dispatch Pointerup s = pointerup s"

fun run :: "event list \<Rightarrow> display \<Rightarrow> display" where
  "run [] s = s"
| "run (e # es) s = run es (dispatch e s)"

fun is_Attribute :: "event \<Rightarrow> bool" where
  "is_Attribute (Attribute newValue) = True"
| "is_Attribute (Interval intervalID) = False"
| "is_Attribute Pointerup = False"

text \<open>Every display that some sequence of events produces from a new element.\<close>

inductive reachable :: "display \<Rightarrow> bool" where
  reachable_constructor: "reachable constructor"
| reachable_dispatch: "reachable s \<Longrightarrow> reachable (dispatch e s)"

text \<open>
  A disciplined use of the element: text is assigned only while no interval is set and
  the continue button is hidden, and the button receives \<open>pointerup\<close> only while it is
  shown.
\<close>

fun permitted :: "event \<Rightarrow> display \<Rightarrow> bool" where
  "permitted (Attribute newValue) s = (intervals s = [] \<and> continueButton_hidden s)"
| "permitted (Interval intervalID) s = True"
| "permitted Pointerup s = (\<not> continueButton_hidden s)"

inductive orderly :: "display \<Rightarrow> bool" where
  orderly_constructor: "orderly constructor"
| orderly_dispatch: "orderly s \<Longrightarrow> permitted e s \<Longrightarrow> orderly (dispatch e s)"

section \<open>Example inputs\<close>

text \<open>The text \<open>abc\<close>, and a text with one space after a hundred letters.\<close>

definition text_abc :: jsstring where
  "text_abc = js ''abc''"

definition text_paged :: jsstring where
  "text_paged = replicate 100 0x61 @ [0x20, 0x62]"

text \<open>A hundred letters and then U+0000; and U+0000 and then a letter.\<close>

definition text_nul_last :: jsstring where
  "text_nul_last = replicate 100 0x61 @ [0x0000]"

definition text_nul_first :: jsstring where
  "text_nul_first = [0x0000, 0x61]"

text \<open>The display after \<open>n\<close> ticks of the first interval on a given text.\<close>

definition shown :: "jsstring \<Rightarrow> nat \<Rightarrow> display" where
  "shown txt n = fires n 0 (attributeChangedCallback (Some txt) constructor)"

text \<open>
  The first text ends with U+0000 and its interval has ticked a hundred times; and the
  second text, which starts with U+0000, is assigned when the interval of an earlier
  text has ticked 99 times.
\<close>

definition nul_last_display :: display where
  "nul_last_display = shown text_nul_last 100"

definition nul_first_display :: display where
  "nul_first_display = attributeChangedCallback (Some text_nul_first) (shown text_paged 99)"

section \<open>What holds of every closure\<close>

text \<open>
  A closure has counted from 1, and it looks for whitespace exactly when its index has
  passed 100.
\<close>

definition counted :: "closure \<Rightarrow> bool" where
  "counted cl = (1 \<le> index cl \<and> lookForWhitespaceChar cl = (100 < index cl))"

section \<open>Texts without U+0000 at their ends\<close>

text \<open>A text whose trimmed form neither starts nor ends with U+0000.\<close>

definition plain_ends :: "jsstring \<Rightarrow> bool" where
  "plain_ends v = (trim v = [] \<or> (hd (trim v) \<noteq> 0x0000 \<and> last (trim v) \<noteq> 0x0000))"

fun plain_event :: "event \<Rightarrow> bool" where
  "plain_event (Attribute None) = True"
| "plain_event (Attribute (Some v)) = plain_ends v"
| "plain_event (Interval intervalID) = True"
| "plain_event Pointerup = True"

text \<open>The texts of the children: the first and the last are not whitespace only.\<close>

definition ends_shown :: "jsstring list \<Rightarrow> bool" where
  "ends_shown ts = (ts = [] \<or> (trim (hd ts) \<noteq> [] \<and> trim (last ts) \<noteq> []))"

section \<open>Trimming\<close>

lemma trim_decompose:
  "\<exists>pre post. str = pre @ trim str @ post \<and> list_all isWhiteSpace pre \<and> list_all isWhiteSpace post"
proof -
  define d where "d = dropWhile isWhiteSpace str"
  have a: "str = takeWhile isWhiteSpace str @ d"
    by (simp add: d_def)
  have "rev (dropWhile isWhiteSpace (rev d)) @ rev (takeWhile isWhiteSpace (rev d)) = d"
    by (metis rev_append rev_rev_ident takeWhile_dropWhile_id)
  then have b: "d = trim str @ rev (takeWhile isWhiteSpace (rev d))"
    by (simp add: trim_def d_def)
  have c: "list_all isWhiteSpace (takeWhile isWhiteSpace str)"
    by (simp add: list_all_iff) (meson set_takeWhileD)
  have e: "list_all isWhiteSpace (rev (takeWhile isWhiteSpace (rev d)))"
    by (simp add: list_all_iff) (meson set_takeWhileD)
  from a b have "str = takeWhile isWhiteSpace str @ trim str @ rev (takeWhile isWhiteSpace (rev d))"
    by simp
  with c e show ?thesis by blast
qed

lemma trim_last: "trim str \<noteq> [] \<Longrightarrow> \<not> isWhiteSpace (last (trim str))"
  by (simp add: trim_def last_rev hd_dropWhile)

lemma dropWhile_trailing_hd:
  "dropWhile P (rev xs) \<noteq> [] \<Longrightarrow> hd (rev (dropWhile P (rev xs))) = hd xs"
proof (induction xs rule: rev_induct)
  case Nil
  then show ?case by simp
next
  case (snoc x xs)
  show ?case
  proof (cases "P x")
    case True
    with snoc have "dropWhile P (rev xs) \<noteq> []" by simp
    then have "xs \<noteq> []" by auto
    with snoc True show ?thesis by simp
  next
    case False
    then show ?thesis by (simp add: hd_rev)
  qed
qed

lemma trim_hd: "trim str \<noteq> [] \<Longrightarrow> \<not> isWhiteSpace (hd (trim str))"
proof -
  assume ne: "trim str \<noteq> []"
  define d where "d = dropWhile isWhiteSpace str"
  from ne have n1: "dropWhile isWhiteSpace (rev d) \<noteq> []"
    by (simp add: trim_def d_def)
  then have "d \<noteq> []" by auto
  then have "\<not> isWhiteSpace (hd d)"
    unfolding d_def by (rule hd_dropWhile)
  moreover have "hd (trim str) = hd d"
    using dropWhile_trailing_hd [OF n1] by (simp add: trim_def d_def)
  ultimately show ?thesis by simp
qed

lemma trim_single: "(trim [c] = []) = isWhiteSpace c"
  by (simp add: trim_def)

section \<open>The branches of the interval callback\<close>

lemma callback_inactive:
  "map_of (intervals s) i = None \<Longrightarrow> callback i s = Returned s"
  by (simp add: callback_def)

lemma callback_undefined:
  "map_of (intervals s) i = Some cl \<Longrightarrow> letters s = None \<Longrightarrow>
   callback i s = Thrown TypeError_letters_undefined s"
  by (simp add: callback_def)

lemma callback_exhausted:
  "map_of (intervals s) i = Some cl \<Longrightarrow> letters s = Some pos \<Longrightarrow>
   length (textBox_children s) \<le> pos \<Longrightarrow>
   callback i s = Returned (clearInterval i
     (s\<lparr>continueButton_textContent := label_done, continueButton_hidden := False,
        data_complete := True\<rparr>))"
  by (simp add: callback_def)

lemma callback_reveal:
  "map_of (intervals s) i = Some cl \<Longrightarrow> letters s = Some pos \<Longrightarrow>
   pos < length (textBox_children s) \<Longrightarrow>
   \<not> (armed cl \<and> whitespace_only (textBox_children s ! pos)) \<Longrightarrow>
   callback i s = Returned (store_closure i
     \<lparr>index = Suc (index cl), lookForWhitespaceChar = armed cl\<rparr>
     (add_visible pos (s\<lparr>letters := Some (Suc pos)\<rparr>)))"
  by (cases "armed cl"; cases "whitespace_only (textBox_children s ! pos)")
    (simp_all add: callback_def Let_def)

lemma callback_break_first:
  "map_of (intervals s) i = Some cl \<Longrightarrow> letters s = Some 0 \<Longrightarrow>
   0 < length (textBox_children s) \<Longrightarrow>
   armed cl \<Longrightarrow> whitespace_only (textBox_children s ! 0) \<Longrightarrow>
   callback i s = Thrown TypeError_no_previousElementSibling
     (clearInterval i (add_visible 0 (s\<lparr>letters := Some (Suc 0)\<rparr>)))"
  by (simp add: callback_def Let_def)

lemma callback_break_last:
  "map_of (intervals s) i = Some cl \<Longrightarrow> letters s = Some pos \<Longrightarrow>
   pos < length (textBox_children s) \<Longrightarrow>
   armed cl \<Longrightarrow> whitespace_only (textBox_children s ! pos) \<Longrightarrow>
   0 < pos \<Longrightarrow> length (textBox_children s) \<le> Suc pos \<Longrightarrow>
   callback i s = Thrown TypeError_no_nextElementSibling
     (add_ellipsis_after (pos - 1)
       (clearInterval i (add_visible pos (s\<lparr>letters := Some (Suc pos)\<rparr>))))"
  by (simp add: callback_def Let_def)

lemma callback_break:
  "map_of (intervals s) i = Some cl \<Longrightarrow> letters s = Some pos \<Longrightarrow>
   armed cl \<Longrightarrow> whitespace_only (textBox_children s ! pos) \<Longrightarrow>
   0 < pos \<Longrightarrow> Suc pos < length (textBox_children s) \<Longrightarrow>
   callback i s = Returned
     ((add_ellipsis_before (Suc pos)
        (add_ellipsis_after (pos - 1)
          (clearInterval i (add_visible pos (s\<lparr>letters := Some (Suc pos)\<rparr>)))))
      \<lparr>continueButton_hidden := False\<rparr>)"
  by (simp add: callback_def Let_def)

lemma callback_cases
  [case_names inactive undefined exhausted reveal break_first break_last break]:
  obtains
    "map_of (intervals s) i = None" and "callback i s = Returned s"
  | cl where "map_of (intervals s) i = Some cl" and "letters s = None"
      and "callback i s = Thrown TypeError_letters_undefined s"
  | cl pos where "map_of (intervals s) i = Some cl" and "letters s = Some pos"
      and "length (textBox_children s) \<le> pos"
      and "callback i s = Returned (clearInterval i
        (s\<lparr>continueButton_textContent := label_done, continueButton_hidden := False,
           data_complete := True\<rparr>))"
  | cl pos where "map_of (intervals s) i = Some cl" and "letters s = Some pos"
      and "pos < length (textBox_children s)"
      and "callback i s = Returned (store_closure i
        \<lparr>index = Suc (index cl), lookForWhitespaceChar = armed cl\<rparr>
        (add_visible pos (s\<lparr>letters := Some (Suc pos)\<rparr>)))"
  | cl where "map_of (intervals s) i = Some cl" and "letters s = Some 0"
      and "whitespace_only (textBox_children s ! 0)" and "0 < length (textBox_children s)"
      and "callback i s = Thrown TypeError_no_previousElementSibling
        (clearInterval i (add_visible 0 (s\<lparr>letters := Some (Suc 0)\<rparr>)))"
  | cl pos where "map_of (intervals s) i = Some cl" and "letters s = Some pos"
      and "whitespace_only (textBox_children s ! pos)" and "0 < pos"
      and "Suc pos = length (textBox_children s)"
      and "callback i s = Thrown TypeError_no_nextElementSibling
        (add_ellipsis_after (pos - 1)
          (clearInterval i (add_visible pos (s\<lparr>letters := Some (Suc pos)\<rparr>))))"
  | cl pos where "map_of (intervals s) i = Some cl" and "letters s = Some pos"
      and "0 < pos" and "Suc pos < length (textBox_children s)"
      and "callback i s = Returned
        ((add_ellipsis_before (Suc pos)
           (add_ellipsis_after (pos - 1)
             (clearInterval i (add_visible pos (s\<lparr>letters := Some (Suc pos)\<rparr>)))))
         \<lparr>continueButton_hidden := False\<rparr>)"
proof (cases "map_of (intervals s) i")
  case None
  then show ?thesis using that(1) callback_inactive by blast
next
  case (Some cl)
  note cl = Some
  show ?thesis
  proof (cases "letters s")
    case None
    then show ?thesis using that(2) [OF cl] callback_undefined [OF cl] by blast
  next
    case (Some pos)
    note pos = Some
    show ?thesis
    proof (cases "length (textBox_children s) \<le> pos")
      case True
      then show ?thesis using that(3) [OF cl pos] callback_exhausted [OF cl pos] by blast
    next
      case False
      then have lt: "pos < length (textBox_children s)" by simp
      show ?thesis
      proof (cases "armed cl \<and> whitespace_only (textBox_children s ! pos)")
        case False
        then show ?thesis using that(4) [OF cl pos lt] callback_reveal [OF cl pos lt] by blast
      next
        case True
        then have a: "armed cl" and w: "whitespace_only (textBox_children s ! pos)"
          by simp_all
        show ?thesis
        proof (cases "pos = 0")
          case True
          with cl pos lt a w show ?thesis
            using that(5) [of cl] callback_break_first [of s i cl] by simp
        next
          case False
          then have p: "0 < pos" by simp
          show ?thesis
          proof (cases "length (textBox_children s) \<le> Suc pos")
            case True
            with lt have "Suc pos = length (textBox_children s)" by simp
            then show ?thesis
              using that(6) [OF cl pos w p] callback_break_last [OF cl pos lt a w p True]
              by blast
          next
            case False
            then have n: "Suc pos < length (textBox_children s)" by simp
            then show ?thesis
              using that(7) [OF cl pos p n] callback_break [OF cl pos a w p n] by blast
          qed
        qed
      qed
    qed
  qed
qed

section \<open>Invariants of the reachable displays\<close>

lemma textContent_visible_update:
  "map textContent (xs[k := (xs ! k)\<lparr>visible := b\<rparr>]) = map textContent xs"
  by (induction xs arbitrary: k) (auto split: nat.splits)

lemma textContent_after_update:
  "map textContent (xs[k := (xs ! k)\<lparr>ellipsis_after := b\<rparr>]) = map textContent xs"
  by (induction xs arbitrary: k) (auto split: nat.splits)

lemma textContent_before_update:
  "map textContent (xs[k := (xs ! k)\<lparr>ellipsis_before := b\<rparr>]) = map textContent xs"
  by (induction xs arbitrary: k) (auto split: nat.splits)

lemmas callback_parts =
  clearInterval_def store_closure_def add_visible_def add_ellipsis_after_def
  add_ellipsis_before_def

lemma add_visible_textContent:
  "map textContent (textBox_children (add_visible k s)) = map textContent (textBox_children s)"
  by (simp add: add_visible_def textContent_visible_update)

lemma add_ellipsis_after_textContent:
  "map textContent (textBox_children (add_ellipsis_after k s)) = map textContent (textBox_children s)"
  by (simp add: add_ellipsis_after_def textContent_after_update)

lemma add_ellipsis_before_textContent:
  "map textContent (textBox_children (add_ellipsis_before k s)) = map textContent (textBox_children s)"
  by (simp add: add_ellipsis_before_def textContent_before_update)

lemma clearInterval_children: "textBox_children (clearInterval i s) = textBox_children s"
  by (simp add: clearInterval_def)

lemma store_closure_children: "textBox_children (store_closure i cl s) = textBox_children s"
  by (simp add: store_closure_def)

lemma callback_textContent:
  "map textContent (textBox_children (after (callback i s))) = map textContent (textBox_children s)"
  by (cases rule: callback_cases [where s = s and i = i])
    (simp_all add: add_visible_textContent add_ellipsis_after_textContent
      add_ellipsis_before_textContent clearInterval_children store_closure_children)

lemma pointerup_textContent:
  "map textContent (textBox_children (pointerup s)) = map textContent (textBox_children s)"
  by (auto simp: pointerup_def showLetters_def)

lemma innerHTML_text_shown:
  assumes "\<not> isWhiteSpace c" and "c \<noteq> 0x0000"
  shows "trim (innerHTML_text c) \<noteq> []"
proof -
  have "isWhiteSpace 0x000D" by (simp add: isWhiteSpace_def)
  with assms(1) have "c \<noteq> 0x000D" by auto
  with assms show ?thesis by (simp add: innerHTML_text_def trim_single)
qed

lemma innerHTML_text_whitespace:
  assumes "isWhiteSpace c"
  shows "trim (innerHTML_text c) = []"
proof (cases "c = 0x000D")
  case True
  have "isWhiteSpace 0x000A" by (simp add: isWhiteSpace_def)
  with True show ?thesis by (simp add: innerHTML_text_def trim_single)
next
  case False
  have "\<not> isWhiteSpace 0x0000" by (simp add: isWhiteSpace_def)
  with assms have "c \<noteq> 0x0000" by auto
  with False assms show ?thesis by (simp add: innerHTML_text_def trim_single)
qed

lemma segment_textContent:
  "map textContent (segment v) = map innerHTML_text (trim v)"
  by (simp add: segment_def char_span_def)

lemma segment_ends_shown:
  assumes "plain_ends v"
  shows "ends_shown (map textContent (segment v))"
proof (cases "trim v = []")
  case True
  then show ?thesis by (simp add: ends_shown_def segment_def)
next
  case False
  with assms have nul: "hd (trim v) \<noteq> 0x0000" "last (trim v) \<noteq> 0x0000"
    by (simp_all add: plain_ends_def)
  have "trim (innerHTML_text (hd (trim v))) \<noteq> []"
    using trim_hd [OF False] nul(1) by (rule innerHTML_text_shown)
  moreover have "trim (innerHTML_text (last (trim v))) \<noteq> []"
    using trim_last [OF False] nul(2) by (rule innerHTML_text_shown)
  ultimately show ?thesis
    using False by (simp add: ends_shown_def segment_textContent hd_map last_map)
qed

lemma dispatch_ends_shown:
  assumes "ends_shown (map textContent (textBox_children s))" and "plain_event e"
  shows "ends_shown (map textContent (textBox_children (dispatch e s)))"
proof (cases e)
  case (Attribute newValue)
  show ?thesis
  proof (cases "newValue = None \<or> newValue = Some []")
    case True
    with Attribute assms(1) show ?thesis
      by (auto simp: attributeChangedCallback_def)
  next
    case False
    then obtain v where v: "newValue = Some v" "v \<noteq> []" by auto
    with assms(2) Attribute have "plain_ends v" by simp
    then have "ends_shown (map textContent (segment v))" by (rule segment_ends_shown)
    with Attribute v show ?thesis
      by (simp add: attributeChangedCallback_def showLetters_def)
  qed
next
  case (Interval i)
  with assms(1) show ?thesis by (simp add: callback_textContent)
next
  case Pointerup
  with assms(1) show ?thesis by (simp add: pointerup_textContent)
qed

lemma run_ends_shown:
  "ends_shown (map textContent (textBox_children s)) \<Longrightarrow> list_all plain_event evs \<Longrightarrow>
   ends_shown (map textContent (textBox_children (run evs s)))"
proof (induction evs arbitrary: s)
  case Nil
  then show ?case by simp
next
  case (Cons e evs)
  from Cons.prems have "ends_shown (map textContent (textBox_children (dispatch e s)))"
    by (simp add: dispatch_ends_shown)
  with Cons.prems Cons.IH show ?case by simp
qed

lemma ends_shown_inside:
  assumes "ends_shown (map textContent xs)" and "pos < length xs"
    and "whitespace_only (xs ! pos)"
  shows "0 < pos \<and> Suc pos < length xs"
proof -
  from assms(2) have ne: "xs \<noteq> []" by auto
  with assms(1) have h: "trim (textContent (hd xs)) \<noteq> []"
    and l: "trim (textContent (last xs)) \<noteq> []"
    by (simp_all add: ends_shown_def hd_map last_map)
  from assms(3) have w: "trim (textContent (xs ! pos)) = []"
    by (simp add: whitespace_only_def)
  from h ne have "trim (textContent (xs ! 0)) \<noteq> []"
    by (simp add: hd_conv_nth)
  with w have "pos \<noteq> 0" by metis
  moreover from l ne have "trim (textContent (xs ! (length xs - 1))) \<noteq> []"
    by (simp add: last_conv_nth)
  with w have "pos \<noteq> length xs - 1" by metis
  ultimately show ?thesis using assms(2) by simp
qed

lemma run_fires: "run (replicate n (Interval i)) s = fires n i s"
  by (induction n arbitrary: s) simp_all

lemma counted_next:
  assumes "counted cl"
  shows "counted \<lparr>index = Suc (index cl), lookForWhitespaceChar = armed cl\<rparr>"
proof -
  from assms have one: "1 \<le> index cl" and look: "lookForWhitespaceChar cl = (100 < index cl)"
    by (simp_all add: counted_def)
  have "(index cl mod 100 = 0 \<or> 100 < index cl) = (100 \<le> index cl)"
    using one by presburger
  then have "armed cl = (100 < Suc (index cl))"
    unfolding armed_def look by auto
  then show ?thesis by (simp add: counted_def)
qed

lemma map_of_in_set: "map_of xs k = Some v \<Longrightarrow> (k, v) \<in> set xs"
  by (rule map_of_SomeD)

lemma callback_counted:
  assumes "\<forall>p \<in> set (intervals s). counted (snd p)"
  shows "\<forall>p \<in> set (intervals (after (callback i s))). counted (snd p)"
proof (cases rule: callback_cases [where s = s and i = i])
  case (reveal cl pos)
  from reveal(1) have "(i, cl) \<in> set (intervals s)" by (rule map_of_in_set)
  with assms have "counted cl" by force
  then have "counted \<lparr>index = Suc (index cl), lookForWhitespaceChar = armed cl\<rparr>"
    by (rule counted_next)
  with assms reveal(4) show ?thesis
    by (auto simp: callback_parts)
qed (use assms in \<open>auto simp: callback_parts\<close>)

lemma showLetters_counted:
  "\<forall>p \<in> set (intervals s). counted (snd p) \<Longrightarrow>
   \<forall>p \<in> set (intervals (showLetters s)). counted (snd p)"
  by (auto simp: showLetters_def counted_def)

lemma reachable_counted:
  "reachable s \<Longrightarrow> \<forall>p \<in> set (intervals s). counted (snd p)"
proof (induction rule: reachable.induct)
  case reachable_constructor
  show ?case by (simp add: constructor_def)
next
  case (reachable_dispatch s e)
  show ?case
  proof (cases e)
    case (Attribute newValue)
    show ?thesis
    proof (cases "newValue = None \<or> newValue = Some []")
      case True
      with Attribute reachable_dispatch.IH show ?thesis
        by (auto simp: attributeChangedCallback_def)
    next
      case False
      then obtain v where v: "newValue = Some v" "v \<noteq> []" by auto
      let ?s = "s\<lparr>accessibleTextBox_textContent := v,
        continueButton_textContent := label_continue, textBox_hidden := False,
        textBox_children := segment v, letters := Some 0\<rparr>"
      have "\<forall>p \<in> set (intervals ?s). counted (snd p)"
        using reachable_dispatch.IH by simp
      then have "\<forall>p \<in> set (intervals (showLetters ?s)). counted (snd p)"
        by (rule showLetters_counted)
      with Attribute v show ?thesis by (simp add: attributeChangedCallback_def)
    qed
  next
    case (Interval i)
    with callback_counted [OF reachable_dispatch.IH] show ?thesis by simp
  next
    case Pointerup
    show ?thesis
    proof (cases "data_complete s")
      case True
      with Pointerup reachable_dispatch.IH show ?thesis by (simp add: pointerup_def)
    next
      case False
      let ?s = "s\<lparr>textBox_children :=
          map (\<lambda>item. if visible item then item\<lparr>hidden := True\<rparr> else item) (textBox_children s),
        continueButton_hidden := True\<rparr>"
      have "\<forall>p \<in> set (intervals ?s). counted (snd p)"
        using reachable_dispatch.IH by simp
      then have "\<forall>p \<in> set (intervals (showLetters ?s)). counted (snd p)"
        by (rule showLetters_counted)
      with Pointerup False show ?thesis by (simp add: pointerup_def)
    qed
  qed
qed

lemma reachable_fires: "reachable s \<Longrightarrow> reachable (fires n i s)"
proof (induction n arbitrary: s)
  case 0
  then show ?case by simp
next
  case (Suc n)
  from Suc.prems have "reachable (dispatch (Interval i) s)" by (rule reachable_dispatch)
  then show ?case using Suc.IH by simp
qed

lemma reachable_shown: "reachable (shown txt n)"
proof -
  have "reachable (dispatch (Attribute (Some txt)) constructor)"
    using reachable_constructor by (rule reachable_dispatch)
  then show ?thesis unfolding shown_def using reachable_fires by simp
qed

lemma map_of_cleared: "map_of (filter (\<lambda>(k, c). k \<noteq> i) xs) i = None"
  by (induction xs) auto

lemma map_of_stored:
  "map_of xs i = Some cl \<Longrightarrow>
   map_of (map (\<lambda>(k, old). if k = i then (k, cl') else (k, old)) xs) i = Some cl'"
  by (induction xs) (auto split: if_splits)

lemma callback_closure:
  assumes "map_of (intervals s) i = Some cl"
    and "thrown (callback i s) = None"
    and "map_of (intervals (after (callback i s))) i = Some cl'"
  shows "cl' = \<lparr>index = Suc (index cl), lookForWhitespaceChar = armed cl\<rparr>"
proof (cases rule: callback_cases [where s = s and i = i])
  case (reveal cl0 pos)
  with assms(1) have "cl0 = cl" by simp
  with reveal(4) assms(1) assms(3) show ?thesis
    by (simp add: callback_parts map_of_stored)
qed (use assms in \<open>simp_all add: callback_parts map_of_cleared\<close>)

section \<open>Segmentation: one unit per character of the trimmed text\<close>

text \<open>
  C4. Segmentation removes whitespace from both ends of the text and nothing else: the
  text is a run of whitespace, the trimmed text, and a run of whitespace, and a trimmed
  text that is not empty neither starts nor ends with whitespace. It yields one unit per
  character of the trimmed text, in order: the unit at a position is the span written
  from the character at that position, and its text is that character, but for U+0000,
  whose span is empty, and U+000D, whose span holds U+000A. Whitespace inside the text
  is kept: the unit of a whitespace character is a whitespace unit. Every unit starts
  without the class \<open>visible\<close>; and there is no unit exactly when the trimmed text is
  empty.
\<close>

theorem segment_units:
  "(\<exists>pre post. newValue = pre @ trim newValue @ post
       \<and> list_all isWhiteSpace pre \<and> list_all isWhiteSpace post)
   \<and> (trim newValue \<noteq> [] \<longrightarrow>
        \<not> isWhiteSpace (hd (trim newValue)) \<and> \<not> isWhiteSpace (last (trim newValue)))
   \<and> length (segment newValue) = length (trim newValue)
   \<and> (\<forall>k < length (trim newValue). segment newValue ! k = char_span (trim newValue ! k))
   \<and> (\<forall>k < length (trim newValue).
        textContent (segment newValue ! k) =
          (if trim newValue ! k = 0x0000 then []
           else if trim newValue ! k = 0x000D then [0x000A]
           else [trim newValue ! k]))
   \<and> (\<forall>k < length (trim newValue).
        isWhiteSpace (trim newValue ! k) \<longrightarrow> whitespace_only (segment newValue ! k))
   \<and> list_all (\<lambda>u. \<not> visible u) (segment newValue)
   \<and> (segment newValue = []) = (trim newValue = [])"
proof -
  have "\<forall>k < length (trim newValue).
      textContent (segment newValue ! k) =
        (if trim newValue ! k = 0x0000 then []
         else if trim newValue ! k = 0x000D then [0x000A]
         else [trim newValue ! k])"
    by (simp add: segment_def char_span_def innerHTML_text_def)
  moreover have "\<forall>k < length (trim newValue).
      isWhiteSpace (trim newValue ! k) \<longrightarrow> whitespace_only (segment newValue ! k)"
    by (simp add: segment_def char_span_def whitespace_only_def innerHTML_text_whitespace)
  moreover have "list_all (\<lambda>u. \<not> visible u) (segment newValue)"
    by (simp add: segment_def char_span_def list_all_iff)
  moreover have "\<forall>k < length (trim newValue). segment newValue ! k = char_span (trim newValue ! k)"
    by (simp add: segment_def)
  moreover have "length (segment newValue) = length (trim newValue)"
    and "(segment newValue = []) = (trim newValue = [])"
    by (simp_all add: segment_def)
  ultimately show ?thesis
    using trim_decompose [of newValue] trim_hd [of newValue] trim_last [of newValue]
    by blast
qed

theorem segment_units_witness:
  "map textContent (segment [0x20, 0x61, 0x20, 0x0D, 0x00, 0x62, 0x0A])
      = [[0x61], [0x20], [0x0A], [], [0x62]]
   \<and> length (segment [0x20, 0x61, 0x20, 0x0D, 0x00, 0x62, 0x0A]) = 5
   \<and> whitespace_only (segment [0x20, 0x61, 0x20, 0x0D, 0x00, 0x62, 0x0A] ! 1)
   \<and> list_all (\<lambda>u. \<not> visible u) (segment [0x20, 0x61, 0x20, 0x0D, 0x00, 0x62, 0x0A])
   \<and> \<not> isWhiteSpace (hd (trim [0x20, 0x61, 0x20, 0x0D, 0x00, 0x62, 0x0A]))
   \<and> \<not> isWhiteSpace (last (trim [0x20, 0x61, 0x20, 0x0D, 0x00, 0x62, 0x0A]))"
proof -
  have t: "trim [0x20, 0x61, 0x20, 0x0D, 0x00, 0x62, 0x0A] = [0x61, 0x20, 0x0D, 0x00, 0x62]"
    by code_simp
  have w: "whitespace_only (segment [0x20, 0x61, 0x20, 0x0D, 0x00, 0x62, 0x0A] ! 1)"
    by code_simp
  have m: "map textContent (segment [0x20, 0x61, 0x20, 0x0D, 0x00, 0x62, 0x0A])
      = [[0x61], [0x20], [0x0A], [], [0x62]]"
    by code_simp
  from segment_units [of "[0x20, 0x61, 0x20, 0x0D, 0x00, 0x62, 0x0A]"] w m
  show ?thesis by (simp add: t)
qed

section \<open>A text assignment without text\<close>

text \<open>
  C8. A text assignment whose value is falsy (\<open>null\<close> or the empty string) returns at
  once: the display is the one before, so nothing becomes visible, no interval is set
  and a hidden text box stays hidden.
\<close>

theorem falsy_text_ignored:
  assumes "newValue = None \<or> newValue = Some []"
  shows "attributeChangedCallback newValue s = s"
  using assms by (auto simp: attributeChangedCallback_def)

theorem falsy_text_ignored_witness:
  "attributeChangedCallback (Some []) constructor = constructor
   \<and> textBox_hidden (attributeChangedCallback (Some []) constructor)
   \<and> intervals (attributeChangedCallback (Some []) constructor) = []
   \<and> textBox_children (attributeChangedCallback (Some []) constructor) = []"
  using falsy_text_ignored [of "Some []" constructor] by (simp add: constructor_def)

section \<open>Page breaks fall inside the text\<close>

text \<open>
  C10, as the code has it. While every text assigned so far has a trimmed form that
  neither starts nor ends with U+0000, a unit that is whitespace only is neither the
  first nor the last unit, whatever intervals have ticked and whenever the button was
  pressed: the trimmed text neither starts nor ends with whitespace, and only the span
  of U+0000 is empty. So the callback never reads \<open>classList\<close> of a missing previous or
  next sibling.
\<close>

theorem plain_texts_have_neighbours:
  assumes "list_all plain_event evs"
  shows "(\<forall>pos < length (textBox_children (run evs constructor)).
            whitespace_only (textBox_children (run evs constructor) ! pos) \<longrightarrow>
            0 < pos \<and> Suc pos < length (textBox_children (run evs constructor)))
         \<and> thrown (callback i (run evs constructor)) \<noteq> Some TypeError_no_previousElementSibling
         \<and> thrown (callback i (run evs constructor)) \<noteq> Some TypeError_no_nextElementSibling"
proof -
  define s where "s = run evs constructor"
  have "ends_shown (map textContent (textBox_children constructor))"
    by (simp add: ends_shown_def constructor_def)
  then have e: "ends_shown (map textContent (textBox_children s))"
    unfolding s_def using assms by (rule run_ends_shown)
  have inside: "\<forall>pos < length (textBox_children s).
      whitespace_only (textBox_children s ! pos) \<longrightarrow>
      0 < pos \<and> Suc pos < length (textBox_children s)"
    using ends_shown_inside [OF e] by blast
  have "thrown (callback i s) \<noteq> Some TypeError_no_previousElementSibling
      \<and> thrown (callback i s) \<noteq> Some TypeError_no_nextElementSibling"
  proof (cases rule: callback_cases [where s = s and i = i])
    case (break_first cl)
    with inside show ?thesis by blast
  next
    case (break_last cl pos)
    from break_last(5) have "pos < length (textBox_children s)" by simp
    with inside break_last(3) have "Suc pos < length (textBox_children s)" by blast
    with break_last(5) show ?thesis by simp
  qed simp_all
  with inside show ?thesis by (simp add: s_def)
qed

theorem plain_texts_have_neighbours_witness:
  "plain_ends text_paged
   \<and> whitespace_only (textBox_children (shown text_paged 100) ! 100)
   \<and> Suc 100 < length (textBox_children (shown text_paged 100))
   \<and> thrown (callback 0 (shown text_paged 100)) \<noteq> Some TypeError_no_previousElementSibling
   \<and> thrown (callback 0 (shown text_paged 100)) \<noteq> Some TypeError_no_nextElementSibling"
proof -
  have p: "plain_ends text_paged"
    by code_simp
  then have pl: "list_all plain_event (Attribute (Some text_paged) # replicate 100 (Interval 0))"
    by (simp add: list_all_iff)
  have ev: "run (Attribute (Some text_paged) # replicate 100 (Interval 0)) constructor
      = shown text_paged 100"
    by (simp add: shown_def run_fires)
  have w: "whitespace_only (textBox_children (shown text_paged 100) ! 100)"
    by code_simp
  have l: "100 < length (textBox_children (shown text_paged 100))"
    by code_simp
  from plain_texts_have_neighbours [OF pl, of 0] w l p
  show ?thesis unfolding ev by blast
qed

text \<open>
  The claim as written fails on a text that ends with U+0000: \<open>trim\<close> leaves U+0000,
  its span is empty, and line 168 takes an empty span for whitespace. On a hundred
  letters followed by U+0000, after a hundred ticks the generator is at the last unit
  with scanning on; that unit is whitespace only and has no next sibling, and the next
  tick throws at line 171, with the interval cleared and the button still hidden.
\<close>

theorem nul_at_end_has_no_next_sibling:
  "trim text_nul_last = text_nul_last
   \<and> length (textBox_children nul_last_display) = 101
   \<and> letters nul_last_display = Some 100
   \<and> map_of (intervals nul_last_display) 0 = Some \<lparr>index = 101, lookForWhitespaceChar = True\<rparr>
   \<and> whitespace_only (textBox_children nul_last_display ! 100)
   \<and> thrown (callback 0 nul_last_display) = Some TypeError_no_nextElementSibling
   \<and> intervals (after (callback 0 nul_last_display)) = []
   \<and> continueButton_hidden (after (callback 0 nul_last_display))"
  by code_simp

section \<open>The running count\<close>

text \<open>
  C6. Every reveal cycle, whether a text assignment or a continue action starts it,
  begins with the running count 1 and with scanning off. A tick that returns and leaves
  its interval set raises the count by one, and scanning is on after it exactly when it
  was on before or the count of that tick was a multiple of 100; so in every reachable
  display scanning is on exactly in the closures whose count has passed 100.
\<close>

theorem running_count:
  assumes "reachable s"
  shows "intervals (showLetters s) =
           intervals s @ [(next_interval s, \<lparr>index = 1, lookForWhitespaceChar = False\<rparr>)]
         \<and> (newValue \<noteq> [] \<longrightarrow> intervals (attributeChangedCallback (Some newValue) s) =
           intervals s @ [(next_interval s, \<lparr>index = 1, lookForWhitespaceChar = False\<rparr>)])
         \<and> (\<not> data_complete s \<longrightarrow> intervals (pointerup s) =
           intervals s @ [(next_interval s, \<lparr>index = 1, lookForWhitespaceChar = False\<rparr>)])
         \<and> (\<forall>cl cl'. map_of (intervals s) i = Some cl \<and> thrown (callback i s) = None
              \<and> map_of (intervals (after (callback i s))) i = Some cl' \<longrightarrow>
              index cl' = Suc (index cl)
              \<and> lookForWhitespaceChar cl' = (lookForWhitespaceChar cl \<or> index cl mod 100 = 0))
         \<and> (\<forall>cl. map_of (intervals s) i = Some cl \<longrightarrow>
              1 \<le> index cl \<and> lookForWhitespaceChar cl = (100 < index cl))"
proof -
  have a: "intervals (showLetters s) =
      intervals s @ [(next_interval s, \<lparr>index = 1, lookForWhitespaceChar = False\<rparr>)]"
    by (simp add: showLetters_def)
  have b: "newValue \<noteq> [] \<longrightarrow> intervals (attributeChangedCallback (Some newValue) s) =
      intervals s @ [(next_interval s, \<lparr>index = 1, lookForWhitespaceChar = False\<rparr>)]"
    by (simp add: attributeChangedCallback_def showLetters_def)
  have c: "\<not> data_complete s \<longrightarrow> intervals (pointerup s) =
      intervals s @ [(next_interval s, \<lparr>index = 1, lookForWhitespaceChar = False\<rparr>)]"
    by (simp add: pointerup_def showLetters_def)
  have d: "\<forall>cl cl'. map_of (intervals s) i = Some cl \<and> thrown (callback i s) = None
      \<and> map_of (intervals (after (callback i s))) i = Some cl' \<longrightarrow>
      index cl' = Suc (index cl)
      \<and> lookForWhitespaceChar cl' = (lookForWhitespaceChar cl \<or> index cl mod 100 = 0)"
    using callback_closure [of s i] by (fastforce simp: armed_def)
  have e: "\<forall>cl. map_of (intervals s) i = Some cl \<longrightarrow>
      1 \<le> index cl \<and> lookForWhitespaceChar cl = (100 < index cl)"
  proof (intro allI impI)
    fix cl
    assume "map_of (intervals s) i = Some cl"
    then have "(i, cl) \<in> set (intervals s)" by (rule map_of_in_set)
    with reachable_counted [OF assms] have "counted cl" by force
    then show "1 \<le> index cl \<and> lookForWhitespaceChar cl = (100 < index cl)"
      by (simp add: counted_def)
  qed
  from a b c d e show ?thesis by blast
qed

theorem running_count_witness:
  "map_of (intervals (shown text_paged 99)) 0 = Some \<lparr>index = 100, lookForWhitespaceChar = False\<rparr>
   \<and> map_of (intervals (shown text_paged 100)) 0 = Some \<lparr>index = 101, lookForWhitespaceChar = True\<rparr>
   \<and> (100::nat) mod 100 = 0
   \<and> intervals (pointerup (shown text_paged 101)) =
       [(1, \<lparr>index = 1, lookForWhitespaceChar = False\<rparr>)]"
proof -
  have a: "map_of (intervals (shown text_paged 99)) 0 = Some \<lparr>index = 100, lookForWhitespaceChar = False\<rparr>"
    by code_simp
  have b: "map_of (intervals (shown text_paged 100)) 0 = Some \<lparr>index = 101, lookForWhitespaceChar = True\<rparr>"
    by code_simp
  have c: "\<not> data_complete (shown text_paged 101)"
    by code_simp
  have d: "intervals (shown text_paged 101) = []" and e: "next_interval (shown text_paged 101) = 1"
    by code_simp+
  from running_count [OF reachable_shown, of text_paged 101 "[]" 0] c d e a b
  show ?thesis by simp
qed

section \<open>The tick that resolves a page break\<close>

lemma visible_after_update:
  "visible ((xs[k := (xs ! k)\<lparr>ellipsis_after := b\<rparr>]) ! j) = visible (xs ! j)"
  by (cases "k < length xs") (simp_all add: nth_list_update list_update_beyond)

lemma visible_before_update:
  "visible ((xs[k := (xs ! k)\<lparr>ellipsis_before := b\<rparr>]) ! j) = visible (xs ! j)"
  by (cases "k < length xs") (simp_all add: nth_list_update list_update_beyond)

lemma add_visible_children:
  "textBox_children (add_visible pos s) =
     (textBox_children s)[pos := (textBox_children s ! pos)\<lparr>visible := True\<rparr>]"
  by (simp add: add_visible_def)

lemma add_ellipsis_after_visible:
  "visible (textBox_children (add_ellipsis_after k s) ! j) = visible (textBox_children s ! j)"
  by (simp add: add_ellipsis_after_def visible_after_update)

lemma add_ellipsis_before_visible:
  "visible (textBox_children (add_ellipsis_before k s) ! j) = visible (textBox_children s ! j)"
  by (simp add: add_ellipsis_before_def visible_before_update)

lemma callback_break_visible:
  assumes "map_of (intervals s) i = Some cl" and "letters s = Some pos"
    and "pos < length (textBox_children s)"
    and "armed cl" and "whitespace_only (textBox_children s ! pos)"
  shows "visible (textBox_children (after (callback i s)) ! k) =
           visible ((textBox_children s)[pos := (textBox_children s ! pos)\<lparr>visible := True\<rparr>] ! k)
         \<and> map_of (intervals (after (callback i s))) i = None
         \<and> letters (after (callback i s)) = Some (Suc pos)"
proof (cases "pos = 0")
  case True
  with assms have "callback i s = Thrown TypeError_no_previousElementSibling
      (clearInterval i (add_visible 0 (s\<lparr>letters := Some (Suc 0)\<rparr>)))"
    using callback_break_first [of s i cl] by simp
  with True show ?thesis
    by (simp add: clearInterval_def add_visible_def map_of_cleared)
next
  case False
  then have p: "0 < pos" by simp
  show ?thesis
  proof (cases "length (textBox_children s) \<le> Suc pos")
    case True
    note eq = callback_break_last [OF assms p True]
    show ?thesis
      by (simp add: eq add_ellipsis_after_visible clearInterval_children add_visible_children)
        (simp add: add_ellipsis_after_def clearInterval_def add_visible_def map_of_cleared)
  next
    case False
    then have n: "Suc pos < length (textBox_children s)" by simp
    note eq = callback_break [OF assms(1,2,4,5) p n]
    show ?thesis
      by (simp add: eq add_ellipsis_before_visible add_ellipsis_after_visible
          clearInterval_children add_visible_children)
        (simp add: add_ellipsis_before_def add_ellipsis_after_def clearInterval_def
          add_visible_def map_of_cleared)
  qed
qed

lemma callback_break_children:
  assumes "map_of (intervals s) i = Some cl" and "letters s = Some pos" and "armed cl"
    and "whitespace_only (textBox_children s ! pos)"
    and "0 < pos" and "Suc pos < length (textBox_children s)"
  shows "textBox_children (after (callback i s)) =
     (textBox_children s)
       [pos := (textBox_children s ! pos)\<lparr>visible := True\<rparr>,
        pos - 1 := (textBox_children s ! (pos - 1))\<lparr>ellipsis_after := True\<rparr>,
        Suc pos := (textBox_children s ! Suc pos)\<lparr>ellipsis_before := True\<rparr>]"
  using assms(5,6) by (simp add: callback_break [OF assms] callback_parts)

text \<open>
  C1, as the code has it. When an interval whose scanning is on ticks at a whitespace
  unit, that unit itself gets the class \<open>visible\<close> (line 167 runs before the test of
  line 168) and no other unit does, the interval is cleared and the generator has
  moved past the unit. When the unit has a unit before it and a unit after it, the
  callback returns without error, the unit before gets \<open>ellipsis-after\<close>, the unit
  after gets \<open>ellipsis-before\<close>, and the continue button is shown.
\<close>

theorem page_break_tick:
  assumes "map_of (intervals s) i = Some cl" and "letters s = Some pos"
    and "pos < length (textBox_children s)"
    and "armed cl" and "whitespace_only (textBox_children s ! pos)"
  shows "visible (textBox_children (after (callback i s)) ! pos)
         \<and> (\<forall>k < length (textBox_children s). k \<noteq> pos \<longrightarrow>
              visible (textBox_children (after (callback i s)) ! k) = visible (textBox_children s ! k))
         \<and> map_of (intervals (after (callback i s))) i = None
         \<and> letters (after (callback i s)) = Some (Suc pos)
         \<and> (0 < pos \<and> Suc pos < length (textBox_children s) \<longrightarrow>
              thrown (callback i s) = None
              \<and> ellipsis_after (textBox_children (after (callback i s)) ! (pos - 1))
              \<and> ellipsis_before (textBox_children (after (callback i s)) ! Suc pos)
              \<and> \<not> continueButton_hidden (after (callback i s)))"
proof -
  note vis = callback_break_visible [OF assms]
  have a: "visible (textBox_children (after (callback i s)) ! pos)"
    using assms(3) by (simp add: vis)
  have b: "\<forall>k < length (textBox_children s). k \<noteq> pos \<longrightarrow>
      visible (textBox_children (after (callback i s)) ! k) = visible (textBox_children s ! k)"
    by (simp add: vis)
  have c: "map_of (intervals (after (callback i s))) i = None"
    and d: "letters (after (callback i s)) = Some (Suc pos)"
    using vis [of 0] by simp_all
  have e: "0 < pos \<and> Suc pos < length (textBox_children s) \<longrightarrow>
      thrown (callback i s) = None
      \<and> ellipsis_after (textBox_children (after (callback i s)) ! (pos - 1))
      \<and> ellipsis_before (textBox_children (after (callback i s)) ! Suc pos)
      \<and> \<not> continueButton_hidden (after (callback i s))"
  proof (intro impI)
    assume "0 < pos \<and> Suc pos < length (textBox_children s)"
    then have p: "0 < pos" and n: "Suc pos < length (textBox_children s)"
      by simp_all
    note eq = callback_break [OF assms(1,2,4,5) p n]
    note ch = callback_break_children [OF assms(1,2,4,5) p n]
    have "thrown (callback i s) = None"
      by (simp add: eq)
    moreover have "ellipsis_after (textBox_children (after (callback i s)) ! (pos - 1))"
      using p n by (simp add: ch nth_list_update)
    moreover have "ellipsis_before (textBox_children (after (callback i s)) ! Suc pos)"
      using p n by (simp add: ch nth_list_update)
    moreover have "\<not> continueButton_hidden (after (callback i s))"
      by (simp add: eq)
    ultimately show "thrown (callback i s) = None
      \<and> ellipsis_after (textBox_children (after (callback i s)) ! (pos - 1))
      \<and> ellipsis_before (textBox_children (after (callback i s)) ! Suc pos)
      \<and> \<not> continueButton_hidden (after (callback i s))"
      by blast
  qed
  from a b c d e show ?thesis by blast
qed

theorem page_break_tick_witness:
  "armed \<lparr>index = 101, lookForWhitespaceChar = True\<rparr>
   \<and> whitespace_only (textBox_children (shown text_paged 100) ! 100)
   \<and> visible (textBox_children (after (callback 0 (shown text_paged 100))) ! 100)
   \<and> thrown (callback 0 (shown text_paged 100)) = None
   \<and> ellipsis_after (textBox_children (after (callback 0 (shown text_paged 100))) ! 99)
   \<and> ellipsis_before (textBox_children (after (callback 0 (shown text_paged 100))) ! 101)
   \<and> map_of (intervals (after (callback 0 (shown text_paged 100)))) 0 = None
   \<and> \<not> continueButton_hidden (after (callback 0 (shown text_paged 100)))"
proof -
  have a: "map_of (intervals (shown text_paged 100)) 0 = Some \<lparr>index = 101, lookForWhitespaceChar = True\<rparr>"
    by code_simp
  have b: "letters (shown text_paged 100) = Some 100"
    by code_simp
  have c: "100 < length (textBox_children (shown text_paged 100))"
    by code_simp
  have d: "armed \<lparr>index = 101, lookForWhitespaceChar = True\<rparr>"
    by (simp add: armed_def)
  have e: "whitespace_only (textBox_children (shown text_paged 100) ! 100)"
    by code_simp
  have f: "Suc 100 < length (textBox_children (shown text_paged 100))"
    by code_simp
  from page_break_tick [OF a b c d e] d e f
  show ?thesis by simp
qed

text \<open>
  The claim as written fails on the text of a hundred letters, a space and a letter:
  the space is not visible after 100 ticks and is visible after tick 101, the tick that
  decorates its neighbours, clears the interval and shows the button.
\<close>

theorem page_break_reveals_whitespace:
  "whitespace_only (textBox_children (shown text_paged 100) ! 100)
   \<and> \<not> visible (textBox_children (shown text_paged 100) ! 100)
   \<and> visible (textBox_children (shown text_paged 101) ! 100)
   \<and> ellipsis_after (textBox_children (shown text_paged 101) ! 99)
   \<and> ellipsis_before (textBox_children (shown text_paged 101) ! 101)
   \<and> intervals (shown text_paged 101) = []
   \<and> \<not> continueButton_hidden (shown text_paged 101)"
  by code_simp

section \<open>How many intervals are set\<close>

lemma filter_single:
  "length xs \<le> 1 \<Longrightarrow> map_of xs i = Some cl \<Longrightarrow> filter (\<lambda>(k, c). k \<noteq> i) xs = []"
  by (cases xs) (auto split: if_splits)

lemma callback_single:
  assumes "length (intervals s) \<le> 1"
    and "\<not> continueButton_hidden s \<longrightarrow> intervals s = []"
  shows "length (intervals (after (callback i s))) \<le> 1
         \<and> (\<not> continueButton_hidden (after (callback i s)) \<longrightarrow>
              intervals (after (callback i s)) = [])"
proof (cases rule: callback_cases [where s = s and i = i])
  case inactive
  with assms show ?thesis by simp
next
  case (undefined cl)
  with assms show ?thesis by simp
next
  case (exhausted cl pos)
  with filter_single [OF assms(1) exhausted(1)] show ?thesis
    by (simp add: callback_parts)
next
  case (reveal cl pos)
  from reveal(1) have "intervals s \<noteq> []" by auto
  with assms reveal(4) show ?thesis by (simp add: callback_parts)
next
  case (break_first cl)
  with filter_single [OF assms(1) break_first(1)] show ?thesis
    by (simp add: callback_parts)
next
  case (break_last cl pos)
  with filter_single [OF assms(1) break_last(1)] show ?thesis
    by (simp add: callback_parts)
next
  case (break cl pos)
  with filter_single [OF assms(1) break(1)] show ?thesis
    by (simp add: callback_parts)
qed

lemma orderly_fires: "orderly s \<Longrightarrow> orderly (fires n i s)"
proof (induction n arbitrary: s)
  case 0
  then show ?case by simp
next
  case (Suc n)
  from Suc.prems have "orderly (dispatch (Interval i) s)"
    by (rule orderly_dispatch) simp
  then show ?case using Suc.IH by simp
qed

lemma orderly_shown: "orderly (shown txt n)"
proof -
  have "permitted (Attribute (Some txt)) constructor"
    by (simp add: constructor_def)
  with orderly_constructor have "orderly (dispatch (Attribute (Some txt)) constructor)"
    by (rule orderly_dispatch)
  then show ?thesis unfolding shown_def using orderly_fires by simp
qed

text \<open>
  C2, as the code has it. Nothing cancels an interval but its own callback, on
  exhaustion or at a page break: \<open>showLetters\<close> sets a new interval beside those already
  set. At most one interval is set, and none while the continue button is shown, in
  every display reached when text is assigned only while no interval is set and the
  button is hidden, and the button is pressed only while it is shown.
\<close>

theorem one_interval_when_orderly:
  assumes "orderly s"
  shows "length (intervals s) \<le> 1 \<and> (\<not> continueButton_hidden s \<longrightarrow> intervals s = [])"
  using assms
proof (induction rule: orderly.induct)
  case orderly_constructor
  show ?case by (simp add: constructor_def)
next
  case (orderly_dispatch s e)
  show ?case
  proof (cases e)
    case (Attribute newValue)
    with orderly_dispatch.hyps(2) have idle: "intervals s = []" "continueButton_hidden s"
      by simp_all
    then show ?thesis
      unfolding Attribute
      by (cases newValue) (simp_all add: attributeChangedCallback_def showLetters_def)
  next
    case (Interval i)
    with orderly_dispatch.IH callback_single [of s i] show ?thesis by simp
  next
    case Pointerup
    with orderly_dispatch.hyps(2) orderly_dispatch.IH have "intervals s = []"
      by simp
    with Pointerup show ?thesis
      by (simp add: pointerup_def showLetters_def)
  qed
qed

theorem one_interval_when_orderly_witness:
  "length (intervals (shown text_paged 50)) \<le> 1
   \<and> \<not> continueButton_hidden (shown text_paged 101)
   \<and> intervals (shown text_paged 101) = []
   \<and> length (intervals (pointerup (shown text_paged 101))) \<le> 1"
proof -
  have shown: "\<not> continueButton_hidden (shown text_paged 101)"
    by code_simp
  then have "permitted Pointerup (shown text_paged 101)"
    by simp
  with orderly_shown have "orderly (dispatch Pointerup (shown text_paged 101))"
    by (rule orderly_dispatch)
  then have "orderly (pointerup (shown text_paged 101))"
    by simp
  from one_interval_when_orderly [OF this]
    one_interval_when_orderly [OF orderly_shown, of text_paged 50]
    one_interval_when_orderly [OF orderly_shown, of text_paged 101] shown
  show ?thesis by simp
qed

text \<open>
  The claim as written fails: a second text assignment leaves the first interval set,
  and both then advance the one generator; and a continue action after a text assignment
  made during a pause adds an interval to the one that assignment set.
\<close>

theorem two_intervals_on_one_cursor:
  "map fst (intervals (run [Attribute (Some text_abc), Attribute (Some text_abc)] constructor)) = [0, 1]
   \<and> letters (run [Attribute (Some text_abc), Attribute (Some text_abc),
                   Interval 0, Interval 1] constructor) = Some 2
   \<and> length (intervals (pointerup (attributeChangedCallback (Some text_abc) (shown text_paged 101)))) = 2"
  by code_simp

section \<open>The accessibility text\<close>

lemma callback_accessible:
  "accessibleTextBox_textContent (after (callback i s)) = accessibleTextBox_textContent s"
  by (cases rule: callback_cases [where s = s and i = i]) (simp_all add: callback_parts)

lemma pointerup_accessible:
  "accessibleTextBox_textContent (pointerup s) = accessibleTextBox_textContent s"
  by (simp add: pointerup_def showLetters_def)

lemma run_accessible:
  "list_all (\<lambda>e. \<not> is_Attribute e) evs \<Longrightarrow>
   accessibleTextBox_textContent (run evs s) = accessibleTextBox_textContent s"
proof (induction evs arbitrary: s)
  case Nil
  show ?case by simp
next
  case (Cons e evs)
  then show ?case
    by (cases e) (simp_all add: callback_accessible pointerup_accessible)
qed

lemma trim_unchanged:
  assumes "v \<noteq> []" and "\<not> isWhiteSpace (hd v)" and "\<not> isWhiteSpace (last v)"
  shows "trim v = v"
proof -
  from assms(1,2) have a: "dropWhile isWhiteSpace v = v"
    by (cases v) simp_all
  from assms(1,3) have "\<not> isWhiteSpace (hd (rev v))" and "rev v \<noteq> []"
    by (simp_all add: hd_rev)
  then have "dropWhile isWhiteSpace (rev v) = rev v"
    by (cases "rev v") simp_all
  with a show ?thesis by (simp add: trim_def)
qed

text \<open>
  C3, as the code has it. A text assignment with a non-empty value writes that value,
  untrimmed, to the accessibility region (line 189), and no tick and no button press
  writes the region: after any such events it still holds the whole value. It is the
  trimmed text when the value neither starts nor ends with whitespace.
\<close>

theorem accessible_text_is_raw:
  assumes "newValue \<noteq> []" and "list_all (\<lambda>e. \<not> is_Attribute e) evs"
  shows "accessibleTextBox_textContent (run evs (attributeChangedCallback (Some newValue) s)) = newValue
         \<and> (\<not> isWhiteSpace (hd newValue) \<and> \<not> isWhiteSpace (last newValue) \<longrightarrow>
              accessibleTextBox_textContent (run evs (attributeChangedCallback (Some newValue) s))
                = trim newValue)"
proof -
  have "accessibleTextBox_textContent (attributeChangedCallback (Some newValue) s) = newValue"
    using assms(1) by (simp add: attributeChangedCallback_def showLetters_def)
  then have "accessibleTextBox_textContent (run evs (attributeChangedCallback (Some newValue) s)) = newValue"
    by (simp add: run_accessible [OF assms(2)])
  then show ?thesis using trim_unchanged [OF assms(1)] by simp
qed

theorem accessible_text_is_raw_witness:
  "accessibleTextBox_textContent
     (run [Interval 0, Interval 0, Pointerup, Interval 1]
        (attributeChangedCallback (Some [0x20, 0x61, 0x62, 0x20]) constructor))
     = [0x20, 0x61, 0x62, 0x20]
   \<and> accessibleTextBox_textContent
     (run [Interval 0, Interval 0] (attributeChangedCallback (Some text_abc) constructor))
     = trim text_abc"
proof -
  have a: "\<not> isWhiteSpace (hd text_abc)" and b: "\<not> isWhiteSpace (last text_abc)"
    and c: "text_abc \<noteq> []"
    by code_simp+
  have d: "[0x20, 0x61, 0x62, 0x20] \<noteq> ([] :: jsstring)"
    by simp
  have e: "list_all (\<lambda>e. \<not> is_Attribute e) [Interval 0, Interval 0, Pointerup, Interval 1]"
    and f: "list_all (\<lambda>e. \<not> is_Attribute e) [Interval 0, Interval 0]"
    by simp_all
  from accessible_text_is_raw [OF d e, of constructor]
    accessible_text_is_raw [OF c f, of constructor] a b
  show ?thesis by blast
qed

text \<open>The claim as written fails on a text that starts with a space.\<close>

theorem accessible_text_not_trimmed:
  "accessibleTextBox_textContent (attributeChangedCallback (Some [0x20, 0x61]) constructor)
     = [0x20, 0x61]
   \<and> trim [0x20, 0x61] = [0x61]"
  by code_simp

section \<open>The text abc\<close>

text \<open>
  C7, as the code has it. On the text \<open>abc\<close> three ticks make the three units visible,
  with the accessibility text \<open>abc\<close>, but the generator reports that it is done only to
  the next call: after three ticks the completion marker is not set, the button is
  hidden and its label is still the one of a reveal in progress. The fourth tick sets
  the marker, labels the button \<open>Done\<close>, shows it and clears the interval.
\<close>

theorem abc_done_on_fourth_tick:
  "length (filter visible (textBox_children (shown text_abc 3))) = 3
   \<and> accessibleTextBox_textContent (shown text_abc 3) = text_abc
   \<and> \<not> data_complete (shown text_abc 3)
   \<and> continueButton_hidden (shown text_abc 3)
   \<and> continueButton_textContent (shown text_abc 3) = label_continue
   \<and> data_complete (shown text_abc 4)
   \<and> continueButton_textContent (shown text_abc 4) = label_done
   \<and> \<not> continueButton_hidden (shown text_abc 4)
   \<and> length (filter visible (textBox_children (shown text_abc 4))) = 3
   \<and> length (textBox_children (shown text_abc 4)) = 3
   \<and> accessibleTextBox_textContent (shown text_abc 4) = text_abc
   \<and> intervals (shown text_abc 4) = []"
  by code_simp

theorem abc_done_on_fourth_tick_witness:
  "data_complete (shown text_abc 4) \<and> continueButton_textContent (shown text_abc 4) = js ''Done''"
  using abc_done_on_fourth_tick by (simp add: label_done_def)

text \<open>The claim as written fails: after exactly three ticks nothing marks completion.\<close>

theorem abc_not_done_after_three_ticks:
  "\<not> data_complete (shown text_abc 3)
   \<and> continueButton_textContent (shown text_abc 3) \<noteq> label_done
   \<and> letters (shown text_abc 3) = Some 3
   \<and> map_of (intervals (shown text_abc 3)) 0 = Some \<lparr>index = 4, lookForWhitespaceChar = False\<rparr>"
  by code_simp

section \<open>The continue button\<close>

text \<open>
  C9. With the completion marker set, \<open>pointerup\<close> dismisses: it hides the text box and
  the button and removes the marker, and starts nothing. Without the marker it leaves
  the marker unset and the text box as it is, marks every visible unit hidden, hides
  the button and starts a reveal cycle on the same generator, whose position it does not
  change. It starts no cycle exactly when the marker was set.
\<close>

theorem pointerup_dismisses_or_continues:
  "(data_complete s \<longrightarrow>
      textBox_hidden (pointerup s) \<and> continueButton_hidden (pointerup s)
      \<and> \<not> data_complete (pointerup s)
      \<and> textBox_children (pointerup s) = textBox_children s
      \<and> letters (pointerup s) = letters s)
   \<and> (\<not> data_complete s \<longrightarrow>
      data_complete (pointerup s) = data_complete s
      \<and> textBox_hidden (pointerup s) = textBox_hidden s
      \<and> continueButton_hidden (pointerup s)
      \<and> length (textBox_children (pointerup s)) = length (textBox_children s)
      \<and> (\<forall>k < length (textBox_children s).
           textBox_children (pointerup s) ! k =
             (if visible (textBox_children s ! k)
              then (textBox_children s ! k)\<lparr>hidden := True\<rparr>
              else textBox_children s ! k))
      \<and> letters (pointerup s) = letters s
      \<and> intervals (pointerup s) =
           intervals s @ [(next_interval s, \<lparr>index = 1, lookForWhitespaceChar = False\<rparr>)])
   \<and> (intervals (pointerup s) = intervals s) = data_complete s"
  by (simp add: pointerup_def showLetters_def)

theorem pointerup_dismisses_or_continues_witness:
  "data_complete (shown text_abc 4)
   \<and> textBox_hidden (pointerup (shown text_abc 4))
   \<and> \<not> data_complete (pointerup (shown text_abc 4))
   \<and> \<not> data_complete (shown text_paged 101)
   \<and> \<not> data_complete (pointerup (shown text_paged 101))
   \<and> continueButton_hidden (pointerup (shown text_paged 101))
   \<and> letters (pointerup (shown text_paged 101)) = Some 101
   \<and> hidden (textBox_children (pointerup (shown text_paged 101)) ! 100)
   \<and> intervals (pointerup (shown text_paged 101)) =
        [(1, \<lparr>index = 1, lookForWhitespaceChar = False\<rparr>)]"
proof -
  have a: "data_complete (shown text_abc 4)"
    by code_simp
  have b: "\<not> data_complete (shown text_paged 101)"
    and c: "letters (shown text_paged 101) = Some 101"
    and d: "intervals (shown text_paged 101) = []"
    and e: "next_interval (shown text_paged 101) = 1"
    and f: "100 < length (textBox_children (shown text_paged 101))"
    and g: "visible (textBox_children (shown text_paged 101) ! 100)"
    by code_simp+
  from pointerup_dismisses_or_continues [of "shown text_abc 4"]
    pointerup_dismisses_or_continues [of "shown text_paged 101"] a b c d e f g
  show ?thesis by simp
qed

section \<open>A page break with a neighbour missing\<close>

text \<open>
  C5, as the code has it. Lines 170 and 171 read \<open>classList\<close> of the previous and of the
  next sibling with no test. When the whitespace-only unit at which page-break scanning
  stops has no previous sibling, the callback throws a TypeError at line 170; when it
  has a previous but no next sibling, the previous sibling gets \<open>ellipsis-after\<close> and
  the callback throws at line 171. In both cases the interval is already cleared, and
  nothing of the exhaustion handling happens: completion marker, button label and
  button visibility stay as they were.
\<close>

theorem break_unguarded:
  assumes "map_of (intervals s) i = Some cl" and "letters s = Some pos"
    and "pos < length (textBox_children s)"
    and "armed cl" and "whitespace_only (textBox_children s ! pos)"
  shows "(pos = 0 \<longrightarrow>
            thrown (callback i s) = Some TypeError_no_previousElementSibling)
         \<and> (0 < pos \<and> length (textBox_children s) \<le> Suc pos \<longrightarrow>
            thrown (callback i s) = Some TypeError_no_nextElementSibling
            \<and> ellipsis_after (textBox_children (after (callback i s)) ! (pos - 1)))
         \<and> (pos = 0 \<or> length (textBox_children s) \<le> Suc pos \<longrightarrow>
            data_complete (after (callback i s)) = data_complete s
            \<and> continueButton_textContent (after (callback i s)) = continueButton_textContent s
            \<and> continueButton_hidden (after (callback i s)) = continueButton_hidden s
            \<and> map_of (intervals (after (callback i s))) i = None)"
proof (cases "pos = 0")
  case True
  with assms have "callback i s = Thrown TypeError_no_previousElementSibling
      (clearInterval i (add_visible 0 (s\<lparr>letters := Some (Suc 0)\<rparr>)))"
    using callback_break_first [of s i cl] by simp
  with True show ?thesis
    by (simp add: callback_parts map_of_cleared)
next
  case False
  then have p: "0 < pos" by simp
  show ?thesis
  proof (cases "length (textBox_children s) \<le> Suc pos")
    case True
    note eq = callback_break_last [OF assms(1,2,3,4,5) p True]
    have "ellipsis_after (textBox_children (after (callback i s)) ! (pos - 1))"
      using p assms(3) by (simp add: eq callback_parts nth_list_update)
    with p True show ?thesis
      by (simp add: eq callback_parts map_of_cleared)
  next
    case False
    with p show ?thesis by simp
  qed
qed

theorem break_unguarded_witness:
  "armed \<lparr>index = 100, lookForWhitespaceChar = False\<rparr>
   \<and> thrown (callback 0 nul_first_display) = Some TypeError_no_previousElementSibling
   \<and> map_of (intervals (after (callback 0 nul_first_display))) 0 = None
   \<and> thrown (callback 0 nul_last_display) = Some TypeError_no_nextElementSibling
   \<and> ellipsis_after (textBox_children (after (callback 0 nul_last_display)) ! 99)
   \<and> \<not> data_complete (after (callback 0 nul_last_display))"
proof -
  have a: "map_of (intervals nul_first_display) 0 = Some \<lparr>index = 100, lookForWhitespaceChar = False\<rparr>"
    and b: "letters nul_first_display = Some 0"
    and c: "0 < length (textBox_children nul_first_display)"
    and d: "whitespace_only (textBox_children nul_first_display ! 0)"
    by code_simp+
  have a': "map_of (intervals nul_last_display) 0 = Some \<lparr>index = 101, lookForWhitespaceChar = True\<rparr>"
    and b': "letters nul_last_display = Some 100"
    and c': "100 < length (textBox_children nul_last_display)"
    and d': "whitespace_only (textBox_children nul_last_display ! 100)"
    and e': "length (textBox_children nul_last_display) = 101"
    and f': "\<not> data_complete nul_last_display"
    by code_simp+
  have g: "armed \<lparr>index = 100, lookForWhitespaceChar = False\<rparr>"
    and g': "armed \<lparr>index = 101, lookForWhitespaceChar = True\<rparr>"
    by (simp_all add: armed_def)
  from break_unguarded [OF a b c g d] break_unguarded [OF a' b' c' g' d'] e' f' g
  show ?thesis by simp
qed

text \<open>
  The claim as written fails on two displays that text assignments produce. A text of
  a hundred letters and U+0000 has ticked a hundred times: the next tick throws at
  line 171 and treats nothing as exhaustion. A text that starts with U+0000 is assigned
  when the interval of an earlier text has ticked 99 times: the next tick of that
  interval throws at line 170.
\<close>

theorem break_without_neighbour_throws:
  "thrown (callback 0 nul_first_display) = Some TypeError_no_previousElementSibling
   \<and> \<not> ellipsis_before (textBox_children (after (callback 0 nul_first_display)) ! 1)
   \<and> thrown (callback 0 nul_last_display) = Some TypeError_no_nextElementSibling
   \<and> \<not> data_complete (after (callback 0 nul_last_display))
   \<and> continueButton_hidden (after (callback 0 nul_last_display))
   \<and> continueButton_textContent (after (callback 0 nul_last_display)) = label_continue"
  by code_simp

end
